theory Spec2Isabelle
  imports Complex_Main "HOL-Library.FSet" "HOL-Library.List_Lexorder"
begin

section \<open>Python values\<close>

text \<open>
  A Python \<open>str\<close> is a sequence of Unicode code points, so it is modelled as a list of
  natural numbers (HOL's \<open>char\<close> is a byte and could not hold a code point above 255).
  The order on \<open>pystr\<close> is the lexicographic order of \<open>HOL-Library.List_Lexorder\<close>,
  which is how Python compares strings. \<open>str\<close> writes an ASCII literal.
\<close>

type_synonym pystr = "nat list"

definition str :: "string \<Rightarrow> pystr" where
  "str s = map of_char s"

text \<open>
  What \<open>json.load\<close> returns: \<open>None\<close>, a \<open>bool\<close>, a number, a \<open>str\<close>, a \<open>list\<close> or a
  \<open>dict\<close> with \<open>str\<close> keys. A number is modelled by its exact value (Python compares
  \<open>int\<close> and \<open>float\<close> by value); the non-finite floats are outside the model. A \<open>dict\<close>
  is an association list read with \<open>map_of\<close>.
\<close>

datatype json =
    JNull
  | JBool bool
  | JNum rat
  | JStr pystr
  | JArr "json list"
  | JObj "(pystr \<times> json) list"

datatype error =
    KeyError
  | IndexError
  | TypeError
  | AttributeError
  | FileNotFoundError pystr
  | JSONDecodeError
  | ValueError
  | OSError

text \<open>
  The elements of a Python \<open>set\<close> are hashable values compared with \<open>==\<close>:
  \<open>True == 1\<close> and \<open>False == 0\<close>, a \<open>list\<close> or a \<open>dict\<close> is unhashable
  (\<open>set.add\<close> raises \<open>TypeError\<close>).
\<close>

datatype key = KNone | KNum rat | KStr pystr

fun hash_key :: "json \<Rightarrow> error + key" where
  "hash_key JNull = Inr KNone"
| "hash_key (JBool b) = Inr (KNum (if b then 1 else 0))"
| "hash_key (JNum q) = Inr (KNum q)"
| "hash_key (JStr s) = Inr (KStr s)"
| "hash_key (JArr xs) = Inl TypeError"
| "hash_key (JObj kvs) = Inl TypeError"

text \<open>\<open>obj[k]\<close> for a \<open>str\<close> subscript \<open>k\<close>: only a \<open>dict\<close> accepts it.\<close>

fun getitem_str :: "json \<Rightarrow> pystr \<Rightarrow> error + json" where
  "getitem_str (JObj kvs) k = (case map_of kvs k of None \<Rightarrow> Inl KeyError | Some v \<Rightarrow> Inr v)"
| "getitem_str JNull k = Inl TypeError"
| "getitem_str (JBool b) k = Inl TypeError"
| "getitem_str (JNum q) k = Inl TypeError"
| "getitem_str (JStr s) k = Inl TypeError"
| "getitem_str (JArr xs) k = Inl TypeError"

text \<open>
  \<open>obj[0]\<close>: the first element of a \<open>list\<close> or the first character of a \<open>str\<close>
  (\<open>IndexError\<close> when empty); a \<open>dict\<close> decoded from JSON has no key \<open>0\<close>
  (\<open>KeyError\<close>); nothing else is subscriptable.
\<close>

fun getitem_0 :: "json \<Rightarrow> error + json" where
  "getitem_0 (JArr xs) = (case xs of [] \<Rightarrow> Inl IndexError | v # _ \<Rightarrow> Inr v)"
| "getitem_0 (JStr s) = (case s of [] \<Rightarrow> Inl IndexError | c # _ \<Rightarrow> Inr (JStr [c]))"
| "getitem_0 (JObj kvs) = Inl KeyError"
| "getitem_0 JNull = Inl TypeError"
| "getitem_0 (JBool b) = Inl TypeError"
| "getitem_0 (JNum q) = Inl TypeError"

text \<open>
  \<open>for item in obj\<close>: the elements of a \<open>list\<close>, the keys of a \<open>dict\<close>, the
  characters of a \<open>str\<close>; anything else is not iterable.
\<close>

fun iter :: "json \<Rightarrow> error + json list" where
  "iter (JArr xs) = Inr xs"
| "iter (JObj kvs) = Inr (map JStr (remdups (map fst kvs)))"
| "iter (JStr s) = Inr (map (\<lambda>c. JStr [c]) s)"
| "iter JNull = Inl TypeError"
| "iter (JBool b) = Inl TypeError"
| "iter (JNum q) = Inl TypeError"

text \<open>\<open>data.get(k, default)\<close>: only a \<open>dict\<close> has the method.\<close>

fun dict_get :: "json \<Rightarrow> pystr \<Rightarrow> json \<Rightarrow> error + json" where
  "dict_get (JObj kvs) k dflt = Inr (case map_of kvs k of None \<Rightarrow> dflt | Some v \<Rightarrow> v)"
| "dict_get JNull k dflt = Inl AttributeError"
| "dict_get (JBool b) k dflt = Inl AttributeError"
| "dict_get (JNum q) k dflt = Inl AttributeError"
| "dict_get (JStr s) k dflt = Inl AttributeError"
| "dict_get (JArr xs) k dflt = Inl AttributeError"


section \<open>\<open>_extract_usernames\<close>\<close>

text \<open>The expression \<open>item["string_list_data"][0]["value"]\<close>.\<close>

definition item_username :: "json \<Rightarrow> error + json" where
  "item_username item =
     (case getitem_str item (str ''string_list_data'') of
        Inl e \<Rightarrow> Inl e
      | Inr sld \<Rightarrow>
          (case getitem_0 sld of
             Inl e \<Rightarrow> Inl e
           | Inr entry \<Rightarrow> getitem_str entry (str ''value'')))"

text \<open>The body of the \<open>try\<close>: read the username, then \<open>usernames.add(username)\<close>.\<close>

definition try_add :: "json \<Rightarrow> key set \<Rightarrow> error + key set" where
  "try_add item usernames =
     (case item_username item of
        Inl e \<Rightarrow> Inl e
      | Inr username \<Rightarrow>
          (case hash_key username of
             Inl e \<Rightarrow> Inl e
           | Inr k \<Rightarrow> Inr (insert k usernames)))"

text \<open>
  The \<open>for\<close> loop: \<open>except (KeyError, IndexError): pass\<close> goes on with the next item,
  any other exception leaves the function.
\<close>

fun for_items :: "json list \<Rightarrow> key set \<Rightarrow> error + key set" where
  "for_items [] usernames = Inr usernames"
| "for_items (item # items) usernames =
     (case try_add item usernames of
        Inl e \<Rightarrow> (if e = KeyError \<or> e = IndexError then for_items items usernames else Inl e)
      | Inr usernames' \<Rightarrow> for_items items usernames')"

text \<open>
  \<open>items_list = data.get(key, []) if key else data\<close>: \<open>None\<close> and the empty string are
  both false.
\<close>

definition extract_usernames :: "json \<Rightarrow> pystr option \<Rightarrow> error + key set" where
  "extract_usernames data key =
     (case (case key of
              None \<Rightarrow> Inr data
            | Some k \<Rightarrow> (if k = [] then Inr data else dict_get data k (JArr []))) of
        Inl e \<Rightarrow> Inl e
      | Inr items_list \<Rightarrow>
          (case iter items_list of
             Inl e \<Rightarrow> Inl e
           | Inr items \<Rightarrow> for_items items {}))"


section \<open>\<open>analyze_instagram_data\<close>\<close>

text \<open>
  The file system the program runs in gives, for each path, what
  \<open>open(path, "r", encoding="utf-8")\<close> followed by \<open>json.load\<close> does: the path is missing
  (\<open>FileNotFoundError\<close>), it cannot be opened or read for another reason (an \<open>OSError\<close>
  such as \<open>PermissionError\<close>), its content is not JSON (\<open>json.JSONDecodeError\<close>), or it
  decodes to a document.
\<close>

datatype file_state = Missing | Unreadable | Undecodable | Document json

type_synonym filesystem = "pystr \<Rightarrow> file_state"

definition load_json :: "filesystem \<Rightarrow> pystr \<Rightarrow> error + json" where
  "load_json fs path =
     (case fs path of
        Missing \<Rightarrow> Inl (FileNotFoundError path)
      | Unreadable \<Rightarrow> Inl OSError
      | Undecodable \<Rightarrow> Inl JSONDecodeError
      | Document d \<Rightarrow> Inr d)"

text \<open>
  The two \<open>except\<close> clauses: a \<open>FileNotFoundError\<close> is raised again with a message naming
  the file, a \<open>JSONDecodeError\<close> becomes a \<open>ValueError\<close>, anything else passes through.
\<close>

fun except_load :: "error \<Rightarrow> error" where
  "except_load (FileNotFoundError filename) = FileNotFoundError filename"
| "except_load JSONDecodeError = ValueError"
| "except_load e = e"

definition analyze_instagram_data ::
  "filesystem \<Rightarrow> pystr \<Rightarrow> pystr \<Rightarrow> error + (key set \<times> key set)" where
  "analyze_instagram_data fs followers_file following_file =
     (case load_json fs followers_file of
        Inl e \<Rightarrow> Inl (except_load e)
      | Inr followers_data \<Rightarrow>
     (case load_json fs following_file of
        Inl e \<Rightarrow> Inl (except_load e)
      | Inr following_data \<Rightarrow>
     (case extract_usernames followers_data None of
        Inl e \<Rightarrow> Inl e
      | Inr followers \<Rightarrow>
     (case extract_usernames following_data (Some (str ''relationships_following'')) of
        Inl e \<Rightarrow> Inl e
      | Inr following \<Rightarrow>
          Inr (following - followers, followers - following)))))"


section \<open>The page-based document writer\<close>

text \<open>
  The \<open>fpdf\<close> library is not part of the repository. The record below holds the part
  of an \<open>FPDF\<close> object the renderer reads or writes: the page geometry, the cursor, the
  current page number, the graphics state, and the sequence of shapes and text cells
  drawn so far, each with the page and the position it was drawn at. Coordinates are
  exact rationals; the rounding of Python's floats is not modelled.
\<close>

datatype draw_op =
    Ellipse (op_page: nat) (op_x: rat) (op_y: rat) (op_w: rat) (op_h: rat)
  | Cell (op_page: nat) (op_x: rat) (op_y: rat) (op_w: rat) (op_h: rat) (op_text: pystr)

record fpdf =
  pdf_w :: rat
  pdf_h :: rat
  l_margin :: rat
  r_margin :: rat
  t_margin :: rat
  b_margin :: rat
  auto_page_break :: bool
  page :: nat
  pdf_x :: rat
  pdf_y :: rat
  fill_color :: "nat \<times> nat \<times> nat"
  pdf_font :: "string \<times> string \<times> nat"
  ops :: "draw_op list"

text \<open>
  Modelled from the spec: the primitives of the output document sink (\<open>addPage\<close>,
  \<open>setCursor\<close>, \<open>getCursor\<close>, \<open>drawText\<close>, \<open>drawFilledEllipse\<close>), which the spec lists
  without their code; they follow the \<open>fpdf\<close> methods the source calls.
  \<open>add_page\<close> starts a page with the cursor at the top left margin. \<open>set_x\<close> and \<open>set_y\<close>
  count a negative coordinate from the right or bottom edge, and \<open>set_y\<close> moves the
  abscissa back to the left margin. \<open>cell\<close> first starts a new page by itself (keeping
  the abscissa) when automatic page breaking is on and the cell would go below
  \<open>h - b_margin\<close>; a width of 0 extends the cell to the right margin; afterwards the
  cursor moves to the right of the cell (argument \<open>ln\<close> 0) or to the next line
  (\<open>ln\<close> 1: back at the left margin).
\<close>

definition set_fill_color :: "fpdf \<Rightarrow> nat \<Rightarrow> nat \<Rightarrow> nat \<Rightarrow> fpdf" where
  "set_fill_color pdf r g b = pdf\<lparr>fill_color := (r, g, b)\<rparr>"

definition set_font :: "fpdf \<Rightarrow> string \<Rightarrow> string \<Rightarrow> nat \<Rightarrow> fpdf" where
  "set_font pdf family style pt = pdf\<lparr>pdf_font := (family, style, pt)\<rparr>"

definition ellipse :: "fpdf \<Rightarrow> rat \<Rightarrow> rat \<Rightarrow> rat \<Rightarrow> rat \<Rightarrow> fpdf" where
  "ellipse pdf x y w h = pdf\<lparr>ops := ops pdf @ [Ellipse (page pdf) x y w h]\<rparr>"

definition add_page :: "fpdf \<Rightarrow> fpdf" where
  "add_page pdf = pdf\<lparr>page := page pdf + 1, pdf_x := l_margin pdf, pdf_y := t_margin pdf\<rparr>"

definition set_x :: "fpdf \<Rightarrow> rat \<Rightarrow> fpdf" where
  "set_x pdf x = pdf\<lparr>pdf_x := (if x \<ge> 0 then x else pdf_w pdf + x)\<rparr>"

definition set_y :: "fpdf \<Rightarrow> rat \<Rightarrow> fpdf" where
  "set_y pdf y =
     pdf\<lparr>pdf_x := l_margin pdf, pdf_y := (if y \<ge> 0 then y else pdf_h pdf + y)\<rparr>"

definition set_xy :: "fpdf \<Rightarrow> rat \<Rightarrow> rat \<Rightarrow> fpdf" where
  "set_xy pdf x y = set_x (set_y pdf y) x"

definition cell :: "fpdf \<Rightarrow> rat \<Rightarrow> rat \<Rightarrow> pystr \<Rightarrow> nat \<Rightarrow> fpdf" where
  "cell pdf w h txt newline =
     (let pdf = (if pdf_y pdf + h > pdf_h pdf - b_margin pdf \<and> auto_page_break pdf
                 then (add_page pdf)\<lparr>pdf_x := pdf_x pdf\<rparr>
                 else pdf);
          w = (if w = 0 then pdf_w pdf - r_margin pdf - pdf_x pdf else w);
          pdf = pdf\<lparr>ops := ops pdf @ [Cell (page pdf) (pdf_x pdf) (pdf_y pdf) w h txt]\<rparr>
      in if newline > 0
         then pdf\<lparr>pdf_y := pdf_y pdf + h,
                  pdf_x := (if newline = 1 then l_margin pdf else pdf_x pdf)\<rparr>
         else pdf\<lparr>pdf_x := pdf_x pdf + w\<rparr>)"

text \<open>
  The object \<open>FPDF()\<close> builds (A4, portrait, millimetres: \<open>k\<close> points per unit, margins of
  one centimetre, automatic page breaking with a bottom margin of two), after the first
  \<open>add_page()\<close>.
\<close>

definition fpdf_k :: rat where
  "fpdf_k = 72 / (254 / 10)"

definition new_pdf :: fpdf where
  "new_pdf = add_page
     \<lparr>pdf_w = (59528 / 100) / fpdf_k, pdf_h = (84189 / 100) / fpdf_k,
      l_margin = (2835 / 100) / fpdf_k, r_margin = (2835 / 100) / fpdf_k,
      t_margin = (2835 / 100) / fpdf_k, b_margin = 2 * ((2835 / 100) / fpdf_k),
      auto_page_break = True, page = 0, pdf_x = 0, pdf_y = 0,
      fill_color = (0, 0, 0), pdf_font = ([], [], 12), ops = []\<rparr>"


section \<open>\<open>draw_list_in_columns\<close>\<close>

definition line_height :: rat where
  "line_height = 7"

definition num_cols :: nat where
  "num_cols = 3"

text \<open>\<open>str(n)\<close> for the count in the title.\<close>

fun str_nat :: "nat \<Rightarrow> pystr" where
  "str_nat n = (if n < 10 then [48 + n] else str_nat (n div 10) @ [48 + n mod 10])"

declare str_nat.simps [simp del]

text \<open>
  \<open>s.encode('latin-1', 'replace').decode('latin-1')\<close>: a code point above 255 becomes
  a question mark.
\<close>

definition latin1_replace :: "pystr \<Rightarrow> pystr" where
  "latin1_replace s = map (\<lambda>c. if c < 256 then c else 63) s"

definition safe_user :: "pystr \<Rightarrow> pystr" where
  "safe_user user = latin1_replace (str ''- '' @ user)"

text \<open>
  One round of the \<open>for\<close> loop. The loop carries the document, \<open>current_y\<close> and
  \<open>page_item_index\<close>; \<open>col_width\<close> is computed once before the loop.
\<close>

definition column_step :: "rat \<Rightarrow> pystr \<Rightarrow> fpdf \<times> rat \<times> nat \<Rightarrow> fpdf \<times> rat \<times> nat" where
  "column_step col_width user st =
     (case st of (pdf, current_y, page_item_index) \<Rightarrow>
        let col_index = page_item_index mod num_cols;
            row_index = page_item_index div num_cols;
            (pdf, current_y, page_item_index, col_index, row_index) =
              (if current_y + of_nat row_index * line_height
                    > pdf_h pdf - b_margin pdf - line_height
               then (let pdf = add_page pdf;
                         current_y = t_margin pdf;
                         page_item_index = 0
                     in (pdf, current_y, page_item_index,
                         page_item_index mod num_cols, page_item_index div num_cols))
               else (pdf, current_y, page_item_index, col_index, row_index));
            pdf = set_xy pdf (l_margin pdf + of_nat col_index * col_width)
                             (current_y + of_nat row_index * line_height);
            pdf = cell pdf col_width line_height (safe_user user) 0
        in (pdf, current_y, page_item_index + 1))"

definition draw_list_in_columns ::
  "fpdf \<Rightarrow> pystr \<Rightarrow> pystr fset \<Rightarrow> nat \<times> nat \<times> nat \<Rightarrow> fpdf" where
  "draw_list_in_columns pdf_instance title user_list color =
     (let pdf = set_fill_color pdf_instance (fst color) (fst (snd color)) (snd (snd color));
          pdf = ellipse pdf (pdf_x pdf) (pdf_y pdf + 35 / 10) 3 3;
          pdf = set_x pdf (pdf_x pdf + 5);
          pdf = set_font pdf ''DejaVu'' ''B'' 12;
          pdf = cell pdf 0 10 (title @ str '' ('' @ str_nat (fcard user_list) @ str '')'') 1;
          pdf = set_font pdf ''DejaVu'' [] 10
      in if user_list = {||}
         then cell pdf 0 7 (str ''  None.'') 1
         else
           let page_width = pdf_w pdf - l_margin pdf - r_margin pdf;
               col_width = page_width / 3;
               start_y = pdf_y pdf;
               sorted_users = sorted_list_of_fset user_list;
               (pdf, current_y, page_item_index) =
                 fold (column_step col_width) sorted_users (pdf, start_y, 0)
           in set_y pdf (pdf_y pdf + line_height * 2))"


section \<open>The specification's reading of a record\<close>

text \<open>
  These two definitions follow the specification, not the code. A record has the shape
  \<open>{string_list_data: [{value: string}]}\<close>, where each of the three levels may stop
  short: the key \<open>string_list_data\<close> may be missing, its list may be empty, the key
  \<open>value\<close> may be missing. \<open>spec_record_username\<close> is the string at the end of the path
  when the whole path is there.
\<close>

fun spec_record_shaped :: "json \<Rightarrow> bool" where
  "spec_record_shaped (JObj kvs) =
     (case map_of kvs (str ''string_list_data'') of
        None \<Rightarrow> True
      | Some (JArr []) \<Rightarrow> True
      | Some (JArr (JObj kvs' # _)) \<Rightarrow>
          (case map_of kvs' (str ''value'') of
             None \<Rightarrow> True
           | Some (JStr s) \<Rightarrow> True
           | Some _ \<Rightarrow> False)
      | Some _ \<Rightarrow> False)"
| "spec_record_shaped _ = False"

fun spec_record_username :: "json \<Rightarrow> pystr option" where
  "spec_record_username (JObj kvs) =
     (case map_of kvs (str ''string_list_data'') of
        Some (JArr (JObj kvs' # _)) \<Rightarrow>
          (case map_of kvs' (str ''value'') of
             Some (JStr s) \<Rightarrow> Some s
           | _ \<Rightarrow> None)
      | _ \<Rightarrow> None)"
| "spec_record_username _ = None"


section \<open>Example inputs\<close>

definition user_record :: "pystr \<Rightarrow> json" where
  "user_record name =
     JObj [(str ''string_list_data'', JArr [JObj [(str ''value'', JStr name)]])]"

definition followers_abc :: json where
  "followers_abc =
     JArr [user_record (str ''a''), user_record (str ''b''), user_record (str ''c'')]"

definition following_bcd :: json where
  "following_bcd =
     JObj [(str ''relationships_following'',
            JArr [user_record (str ''b''), user_record (str ''c''), user_record (str ''d'')])]"

definition plain_bcd :: json where
  "plain_bcd =
     JArr [user_record (str ''b''), user_record (str ''c''), user_record (str ''d'')]"

definition following_other_key :: json where
  "following_other_key = JObj [(str ''following'', plain_bcd)]"

definition mixed_records :: "json list" where
  "mixed_records =
     [user_record (str ''a''), JObj [(str ''title'', JStr [])], user_record (str ''b'')]"

definition followers_wrapped :: json where
  "followers_wrapped =
     JObj [(str ''relationships_followers'',
            JArr [user_record (str ''a''), user_record (str ''b''), user_record (str ''c'')])]"

text \<open>
  A document whose cursor is near the bottom of the first page, as it is when an earlier
  block has been drawn; five entries, one with a character Latin-1 can represent
  (U+00E9) and one with a character it cannot (U+0430); and the four of them that
  Latin-1 can represent.
\<close>

definition low_pdf :: fpdf where
  "low_pdf = new_pdf\<lparr>pdf_y := 255\<rparr>"

definition five_users :: "pystr fset" where
  "five_users =
     {|str ''eve'', str ''bob'', str ''dan'', str ''al'' @ [233], str ''c'' @ [1072]|}"

definition four_users :: "pystr fset" where
  "four_users = {|str ''eve'', str ''bob'', str ''dan'', str ''al'' @ [233]|}"

text \<open>Two entries that Latin-1 cannot represent (U+0430, U+0431).\<close>

definition cyrillic_users :: "pystr fset" where
  "cyrillic_users = {|[1072], [1073]|}"

definition two_files :: "file_state \<Rightarrow> file_state \<Rightarrow> filesystem" where
  "two_files followers following =
     (\<lambda>path. if path = str ''followers.json'' then followers
             else if path = str ''following.json'' then following
             else Missing)"


section \<open>Properties of the analyzer\<close>

lemma try_add_shaped:
  "spec_record_shaped r \<Longrightarrow>
     try_add r acc = (case spec_record_username r of
                        None \<Rightarrow> Inl KeyError | Some s \<Rightarrow> Inr (insert (KStr s) acc))
   \<or> try_add r acc = (case spec_record_username r of
                        None \<Rightarrow> Inl IndexError | Some s \<Rightarrow> Inr (insert (KStr s) acc))"
  by (cases r)
     (auto simp: try_add_def item_username_def split: option.splits json.splits list.splits)

lemma for_items_shaped:
  "\<forall>r \<in> set rs. spec_record_shaped r \<Longrightarrow>
     for_items rs acc = Inr (acc \<union> KStr ` {s. \<exists>r \<in> set rs. spec_record_username r = Some s})"
proof (induction rs arbitrary: acc)
  case Nil
  then show ?case by simp
next
  case (Cons r rs)
  then have sh: "spec_record_shaped r" and rest: "\<forall>r \<in> set rs. spec_record_shaped r"
    by simp_all
  show ?case
  proof (cases "spec_record_username r")
    case None
    with try_add_shaped [OF sh, of acc]
    have "try_add r acc = Inl KeyError \<or> try_add r acc = Inl IndexError" by simp
    then have "for_items (r # rs) acc = for_items rs acc" by auto
    with Cons.IH [OF rest, of acc] None show ?thesis by auto
  next
    case (Some s)
    with try_add_shaped [OF sh, of acc]
    have "try_add r acc = Inr (insert (KStr s) acc)" by simp
    then have "for_items (r # rs) acc = for_items rs (insert (KStr s) acc)" by simp
    with Cons.IH [OF rest, of "insert (KStr s) acc"] Some show ?thesis by auto
  qed
qed

lemma try_add_errors:
  "try_add item acc = Inl e \<Longrightarrow> e = KeyError \<or> e = IndexError \<or> e = TypeError"
  by (cases item)
     (auto simp: try_add_def item_username_def
           split: option.splits json.splits list.splits sum.splits
           elim: getitem_str.elims getitem_0.elims hash_key.elims)

lemma for_items_errors: "for_items items acc = Inl e \<Longrightarrow> e = TypeError"
proof (induction items arbitrary: acc)
  case Nil
  then show ?case by simp
next
  case (Cons item items)
  show ?case
  proof (cases "try_add item acc")
    case (Inl e')
    with try_add_errors [of item acc e'] Cons show ?thesis
      by (auto split: if_splits)
  next
    case (Inr acc')
    with Cons show ?thesis by auto
  qed
qed

lemma iter_errors: "iter data = Inl e \<Longrightarrow> e = TypeError"
  by (cases data) auto

lemma dict_get_errors: "dict_get data k dflt = Inl e \<Longrightarrow> e = AttributeError"
  by (cases data) auto

lemma extract_usernames_errors:
  "extract_usernames data k = Inl e \<Longrightarrow> e = TypeError \<or> e = AttributeError"
  by (auto simp: extract_usernames_def split: option.splits if_splits sum.splits
           dest: for_items_errors iter_errors dict_get_errors)

lemma extract_followers_abc:
  "extract_usernames followers_abc None
     = Inr {KStr (str ''a''), KStr (str ''b''), KStr (str ''c'')}"
  by (simp add: extract_usernames_def followers_abc_def user_record_def try_add_def
        item_username_def str_def insert_commute)

lemma extract_following_bcd:
  "extract_usernames following_bcd (Some (str ''relationships_following''))
     = Inr {KStr (str ''b''), KStr (str ''c''), KStr (str ''d'')}"
  by (simp add: extract_usernames_def following_bcd_def user_record_def try_add_def
        item_username_def str_def insert_commute)

text \<open>
  Claim C3. When both documents decode and both extractions return a set, the analyzer
  returns the two plain set differences of the extracted sets, compared as they are:
  \<open>not_following_back = following - followers\<close> and \<open>fans = followers - following\<close>.
  The witness is the scenario of the specification: followers \<open>a, b, c\<close> and following
  \<open>b, c, d\<close> give \<open>{d}\<close> and \<open>{a}\<close>.
\<close>

theorem analyze_set_differences:
  assumes "fs followers_file = Document followers_data"
      and "fs following_file = Document following_data"
      and "extract_usernames followers_data None = Inr followers"
      and "extract_usernames following_data (Some (str ''relationships_following''))
             = Inr following"
  shows "analyze_instagram_data fs followers_file following_file
           = Inr (following - followers, followers - following)"
  using assms by (simp add: analyze_instagram_data_def load_json_def)

theorem analyze_set_differences_witness:
  "two_files (Document followers_abc) (Document following_bcd) (str ''followers.json'')
     = Document followers_abc
   \<and> two_files (Document followers_abc) (Document following_bcd) (str ''following.json'')
     = Document following_bcd
   \<and> extract_usernames followers_abc None
     = Inr {KStr (str ''a''), KStr (str ''b''), KStr (str ''c'')}
   \<and> extract_usernames following_bcd (Some (str ''relationships_following''))
     = Inr {KStr (str ''b''), KStr (str ''c''), KStr (str ''d'')}
   \<and> analyze_instagram_data (two_files (Document followers_abc) (Document following_bcd))
       (str ''followers.json'') (str ''following.json'')
     = Inr ({KStr (str ''d'')}, {KStr (str ''a'')})"
proof -
  let ?fs = "two_files (Document followers_abc) (Document following_bcd)"
  have 1: "?fs (str ''followers.json'') = Document followers_abc"
    by (simp add: two_files_def)
  have 2: "?fs (str ''following.json'') = Document following_bcd"
    by (simp add: two_files_def str_def)
  have 3: "{KStr (str ''b''), KStr (str ''c''), KStr (str ''d'')}
             - {KStr (str ''a''), KStr (str ''b''), KStr (str ''c'')} = {KStr (str ''d'')}"
    by (auto simp: str_def)
  have 4: "{KStr (str ''a''), KStr (str ''b''), KStr (str ''c'')}
             - {KStr (str ''b''), KStr (str ''c''), KStr (str ''d'')} = {KStr (str ''a'')}"
    by (auto simp: str_def)
  show ?thesis
    using analyze_set_differences [OF 1 2 extract_followers_abc extract_following_bcd]
    by (simp only: 1 2 3 4 extract_followers_abc extract_following_bcd simp_thms)
qed

text \<open>
  Claim C4. For a sequence of records of the specified shape, extraction reads
  \<open>record["string_list_data"][0]["value"]\<close> from each record, skips without an error every
  record where a key of the path is missing or the list is empty, and returns the set of
  the values of the other records. The witness is the scenario of the specification:
  one record without \<open>string_list_data\<close> between two valid ones.
\<close>

theorem extract_skips_incomplete_records:
  assumes "\<forall>r \<in> set records. spec_record_shaped r"
  shows "extract_usernames (JArr records) None
           = Inr (KStr ` {s. \<exists>r \<in> set records. spec_record_username r = Some s})"
  using for_items_shaped [OF assms, of "{}"] by (simp add: extract_usernames_def)

theorem extract_skips_incomplete_records_witness:
  "list_all spec_record_shaped mixed_records
   \<and> spec_record_username (mixed_records ! 1) = None
   \<and> extract_usernames (JArr mixed_records) None = Inr {KStr (str ''a''), KStr (str ''b'')}"
proof -
  have sh: "\<forall>r \<in> set mixed_records. spec_record_shaped r"
    by (simp add: mixed_records_def user_record_def str_def)
  have names: "KStr ` {s. \<exists>r \<in> set mixed_records. spec_record_username r = Some s}
                 = {KStr (str ''a''), KStr (str ''b'')}"
    by (auto simp: mixed_records_def user_record_def str_def)
  have skipped: "spec_record_username (mixed_records ! 1) = None"
    by (simp add: mixed_records_def str_def)
  show ?thesis
    using extract_skips_incomplete_records [OF sh] sh skipped
    by (simp only: names list_all_iff simp_thms)
qed

text \<open>
  Claim C5, as the claim states it, fails: the followers document is loaded and decoded
  before the following path is opened, so an undecodable followers document hides a
  missing following path, and a missing followers path hides an undecodable following
  document.
\<close>

theorem load_order_counterexample:
  "two_files Undecodable Missing (str ''following.json'') = Missing
   \<and> analyze_instagram_data (two_files Undecodable Missing)
       (str ''followers.json'') (str ''following.json'') = Inl ValueError
   \<and> two_files Missing Undecodable (str ''following.json'') = Undecodable
   \<and> analyze_instagram_data (two_files Missing Undecodable)
       (str ''followers.json'') (str ''following.json'')
     = Inl (FileNotFoundError (str ''followers.json''))"
  by (simp add: analyze_instagram_data_def load_json_def two_files_def str_def)

text \<open>
  Claim C5, amended. The first load that fails decides the error: the analyzer raises
  \<open>FileNotFoundError\<close> exactly when the followers path is missing, or the followers
  document decodes and the following path is missing; it raises the \<open>ValueError\<close> for
  malformed input exactly when the followers document is undecodable, or it decodes and
  the following document is undecodable; and when either path does not give a decoded
  document, no pair of sets is returned.
\<close>

theorem first_failing_load_decides_error:
  "((\<exists>f. analyze_instagram_data fs followers_file following_file = Inl (FileNotFoundError f))
      \<longleftrightarrow> (fs followers_file = Missing
           \<or> (\<exists>d. fs followers_file = Document d) \<and> fs following_file = Missing))
   \<and> (analyze_instagram_data fs followers_file following_file = Inl ValueError
      \<longleftrightarrow> (fs followers_file = Undecodable
           \<or> (\<exists>d. fs followers_file = Document d) \<and> fs following_file = Undecodable))
   \<and> ((\<nexists>d. fs followers_file = Document d) \<or> (\<nexists>d. fs following_file = Document d)
      \<longrightarrow> (\<nexists>result. analyze_instagram_data fs followers_file following_file = Inr result))"
proof -
  have ex: "extract_usernames d k \<noteq> Inl (FileNotFoundError f)"
           "extract_usernames d k \<noteq> Inl ValueError" for d k f
    using extract_usernames_errors [of d k] by auto
  show ?thesis
    by (cases "fs followers_file"; cases "fs following_file")
       (auto simp: analyze_instagram_data_def load_json_def ex split: sum.splits)
qed

theorem first_failing_load_decides_error_witness:
  "two_files Undecodable Missing (str ''followers.json'') = Undecodable
   \<and> analyze_instagram_data (two_files Undecodable Missing)
       (str ''followers.json'') (str ''following.json'') = Inl ValueError
   \<and> (\<nexists>result. analyze_instagram_data (two_files Undecodable Missing)
       (str ''followers.json'') (str ''following.json'') = Inr result)"
  using first_failing_load_decides_error
    [of "two_files Undecodable Missing" "str ''followers.json''" "str ''following.json''"]
  by (simp add: two_files_def)

text \<open>
  Claim C8, as the claim states it, fails: the shape of each document is fixed by its
  position. The records \<open>b, c, d\<close> are extracted from a plain sequence, but the analyzer
  given that sequence as the following document raises \<open>AttributeError\<close>; given the
  followers as an object holding the sequence under a field, it raises \<open>TypeError\<close>.
\<close>

theorem document_shape_counterexample:
  "extract_usernames plain_bcd None = Inr {KStr (str ''b''), KStr (str ''c''), KStr (str ''d'')}
   \<and> analyze_instagram_data (two_files (Document followers_abc) (Document plain_bcd))
       (str ''followers.json'') (str ''following.json'')
     = Inl AttributeError
   \<and> analyze_instagram_data (two_files (Document followers_wrapped) (Document following_bcd))
       (str ''followers.json'') (str ''following.json'')
     = Inl TypeError"
  by (simp add: analyze_instagram_data_def load_json_def two_files_def extract_usernames_def
        followers_abc_def plain_bcd_def user_record_def try_add_def item_username_def str_def
        followers_wrapped_def insert_commute)

text \<open>
  Claim C8, amended. Extraction gives the same result for a sequence of records read
  directly (the followers document) and for an object holding that sequence under
  \<open>relationships_following\<close> (the following document). The following document must be
  such an object: a plain sequence there raises \<open>AttributeError\<close>. The followers
  document must be a plain sequence: a non-empty object there raises \<open>TypeError\<close>.
\<close>

theorem extract_same_in_either_shape:
  "(map_of kvs (str ''relationships_following'') = Some (JArr records) \<longrightarrow>
      extract_usernames (JObj kvs) (Some (str ''relationships_following''))
        = extract_usernames (JArr records) None)
   \<and> extract_usernames (JArr records) (Some (str ''relationships_following''))
        = Inl AttributeError
   \<and> (kvs \<noteq> [] \<longrightarrow> extract_usernames (JObj kvs) None = Inl TypeError)"
proof -
  have "extract_usernames (JObj kvs) None = Inl TypeError" if "kvs \<noteq> []"
  proof -
    from that have "remdups (map fst kvs) \<noteq> []" by simp
    then obtain k ks where "remdups (map fst kvs) = k # ks"
      by (cases "remdups (map fst kvs)") auto
    then show ?thesis
      by (simp add: extract_usernames_def try_add_def item_username_def)
  qed
  then show ?thesis
    by (simp add: extract_usernames_def str_def)
qed

theorem extract_same_in_either_shape_witness:
  "map_of [(str ''relationships_following'', JArr [user_record (str ''b''), user_record (str ''c''), user_record (str ''d'')])]
      (str ''relationships_following'')
     = Some (JArr [user_record (str ''b''), user_record (str ''c''), user_record (str ''d'')])
   \<and> extract_usernames following_bcd (Some (str ''relationships_following''))
     = extract_usernames plain_bcd None"
  using extract_same_in_either_shape
    [of "[(str ''relationships_following'', JArr [user_record (str ''b''), user_record (str ''c''), user_record (str ''d'')])]"
        "[user_record (str ''b''), user_record (str ''c''), user_record (str ''d'')]"]
  by (simp add: following_bcd_def plain_bcd_def)

text \<open>
  Claim C10. When both documents decode, the following document is an object without the
  key \<open>relationships_following\<close>, and the followers extraction returns a set, the analyzer
  raises nothing and returns the empty set as \<open>not_following_back\<close> and the whole
  followers set as \<open>fans\<close>.
\<close>

theorem missing_following_key_gives_empty_following:
  assumes "fs followers_file = Document followers_data"
      and "fs following_file = Document (JObj kvs)"
      and "map_of kvs (str ''relationships_following'') = None"
      and "extract_usernames followers_data None = Inr followers"
  shows "analyze_instagram_data fs followers_file following_file = Inr ({}, followers)"
  using assms
  by (simp add: analyze_instagram_data_def load_json_def extract_usernames_def str_def)

theorem missing_following_key_gives_empty_following_witness:
  "two_files (Document followers_abc) (Document following_other_key) (str ''followers.json'')
     = Document followers_abc
   \<and> two_files (Document followers_abc) (Document following_other_key) (str ''following.json'')
     = Document (JObj [(str ''following'', plain_bcd)])
   \<and> map_of [(str ''following'', plain_bcd)] (str ''relationships_following'') = None
   \<and> analyze_instagram_data (two_files (Document followers_abc) (Document following_other_key))
       (str ''followers.json'') (str ''following.json'')
     = Inr ({}, {KStr (str ''a''), KStr (str ''b''), KStr (str ''c'')})"
proof -
  let ?fs = "two_files (Document followers_abc) (Document following_other_key)"
  have 1: "?fs (str ''followers.json'') = Document followers_abc"
    by (simp add: two_files_def)
  have 2: "?fs (str ''following.json'') = Document (JObj [(str ''following'', plain_bcd)])"
    by (simp add: two_files_def str_def following_other_key_def)
  have 3: "map_of [(str ''following'', plain_bcd)] (str ''relationships_following'') = None"
    by (simp add: str_def)
  show ?thesis
    using missing_following_key_gives_empty_following [OF 1 2 3 extract_followers_abc]
    by (simp only: 1 2 3 simp_thms)
qed


section \<open>Properties of the renderer\<close>

lemmas step_defs = column_step_def Let_def set_xy_def set_x_def set_y_def cell_def add_page_def

lemma column_step_geometry:
  "pdf_h (fst (column_step cw u st)) = pdf_h (fst st)"
  "pdf_w (fst (column_step cw u st)) = pdf_w (fst st)"
  "t_margin (fst (column_step cw u st)) = t_margin (fst st)"
  "b_margin (fst (column_step cw u st)) = b_margin (fst st)"
  "l_margin (fst (column_step cw u st)) = l_margin (fst st)"
  "r_margin (fst (column_step cw u st)) = r_margin (fst st)"
  "auto_page_break (fst (column_step cw u st)) = auto_page_break (fst st)"
  by (cases st; simp add: step_defs)+

lemma column_step_no_break:
  assumes "\<not> current_y + of_nat (idx div num_cols) * line_height
             > pdf_h pdf - b_margin pdf - line_height"
      and "0 \<le> current_y"
  shows "snd (column_step cw u (pdf, current_y, idx)) = (current_y, idx + 1)"
    and "page (fst (column_step cw u (pdf, current_y, idx))) = page pdf"
    and "pdf_y (fst (column_step cw u (pdf, current_y, idx)))
           = current_y + of_nat (idx div num_cols) * line_height"
proof -
  have "0 \<le> current_y + of_nat (idx div num_cols) * line_height"
    using assms(2) by (simp add: line_height_def)
  with assms(1) show
    "snd (column_step cw u (pdf, current_y, idx)) = (current_y, idx + 1)"
    "page (fst (column_step cw u (pdf, current_y, idx))) = page pdf"
    "pdf_y (fst (column_step cw u (pdf, current_y, idx)))
           = current_y + of_nat (idx div num_cols) * line_height"
    by (simp_all add: step_defs)
qed

lemma column_step_break:
  assumes "current_y + of_nat (idx div num_cols) * line_height
             > pdf_h pdf - b_margin pdf - line_height"
      and "0 \<le> t_margin pdf"
  shows "snd (column_step cw u (pdf, current_y, idx)) = (t_margin pdf, 1)"
    and "page (fst (column_step cw u (pdf, current_y, idx))) > page pdf"
    and "pdf_y (fst (column_step cw u (pdf, current_y, idx))) = t_margin pdf"
  using assms by (simp_all add: step_defs num_cols_def)

lemma cell_ops0:
  "\<exists>x w'. ops (cell pdf w h txt 0) =
     ops pdf @ [Cell (page (cell pdf w h txt 0)) x (pdf_y (cell pdf w h txt 0)) w' h txt]"
  by (simp add: cell_def Let_def add_page_def)

lemma column_step_ops:
  "\<exists>x w. ops (fst (column_step cw u st)) =
     ops (fst st) @ [Cell (page (fst (column_step cw u st))) x
                          (pdf_y (fst (column_step cw u st))) w line_height (safe_user u)]"
proof -
  obtain pdf cy idx where st: "st = (pdf, cy, idx)" by (cases st)
  define p where "p = (if cy + of_nat (idx div num_cols) * line_height
                          > pdf_h pdf - b_margin pdf - line_height
       then set_xy (add_page pdf) (l_margin (add_page pdf) + of_nat (0 mod num_cols) * cw)
                  (t_margin (add_page pdf) + of_nat (0 div num_cols) * line_height)
       else set_xy pdf (l_margin pdf + of_nat (idx mod num_cols) * cw)
                  (cy + of_nat (idx div num_cols) * line_height))"
  have 1: "fst (column_step cw u st) = cell p cw line_height (safe_user u) 0"
    by (simp add: st column_step_def p_def Let_def)
  have 2: "ops p = ops pdf"
    by (simp add: p_def set_xy_def set_x_def set_y_def add_page_def)
  show ?thesis
    using cell_ops0 [of p cw line_height "safe_user u"] unfolding 1 2 by (simp add: st)
qed

lemma fold_column_step_ops:
  "\<exists>new. ops (fst (fold (column_step cw) us st)) = ops (fst st) @ new
      \<and> map op_text new = map safe_user us
      \<and> (us \<noteq> [] \<longrightarrow> op_y (last new) = pdf_y (fst (fold (column_step cw) us st))
                    \<and> op_page (last new) = page (fst (fold (column_step cw) us st)))"
proof (induction us rule: rev_induct)
  case Nil
  then show ?case by simp
next
  case (snoc u us)
  let ?s = "fold (column_step cw) us st"
  from snoc obtain new where new: "ops (fst ?s) = ops (fst st) @ new"
    "map op_text new = map safe_user us" by blast
  from column_step_ops [of cw u ?s] obtain x w where
    step: "ops (fst (column_step cw u ?s)) =
       ops (fst ?s) @ [Cell (page (fst (column_step cw u ?s))) x
                          (pdf_y (fst (column_step cw u ?s))) w line_height (safe_user u)]"
    by blast
  let ?c = "Cell (page (fst (column_step cw u ?s))) x
                          (pdf_y (fst (column_step cw u ?s))) w line_height (safe_user u)"
  have "ops (fst (fold (column_step cw) (us @ [u]) st)) = ops (fst st) @ (new @ [?c])"
    using step new by simp
  moreover have "map op_text (new @ [?c]) = map safe_user (us @ [u])"
    using new by simp
  moreover have "op_y (last (new @ [?c])) = pdf_y (fst (fold (column_step cw) (us @ [u]) st))"
    by simp
  moreover have "op_page (last (new @ [?c])) = page (fst (fold (column_step cw) (us @ [u]) st))"
    by simp
  ultimately show ?case by blast
qed

text \<open>The document after the marker and the title line.\<close>

lemma draw_list_in_columns_unfold:
  "\<exists>p e t. ops p = ops pdf @ [e, t]
     \<and> pdf_h p = pdf_h pdf \<and> t_margin p = t_margin pdf \<and> b_margin p = b_margin pdf
     \<and> l_margin p = l_margin pdf
     \<and> (0 \<le> pdf_y pdf \<and> 0 \<le> t_margin pdf \<longrightarrow> 0 \<le> pdf_y p)
     \<and> draw_list_in_columns pdf title user_list color =
        (if user_list = {||} then cell p 0 7 (str ''  None.'') 1
         else let r = fst (fold (column_step ((pdf_w pdf - l_margin pdf - r_margin pdf) / 3))
                              (sorted_list_of_fset user_list) (p, pdf_y p, 0))
              in set_y r (pdf_y r + line_height * 2))"
proof -
  define p1 where "p1 = set_fill_color pdf (fst color) (fst (snd color)) (snd (snd color))"
  define p2 where "p2 = ellipse p1 (pdf_x p1) (pdf_y p1 + 35 / 10) 3 3"
  define p3 where "p3 = set_x p2 (pdf_x p2 + 5)"
  define p4 where "p4 = set_font p3 ''DejaVu'' ''B'' 12"
  define p5 where
    "p5 = cell p4 0 10 (title @ str '' ('' @ str_nat (fcard user_list) @ str '')'') 1"
  define p where "p = set_font p5 ''DejaVu'' [] 10"
  note p_defs = p_def p5_def p4_def p3_def p2_def p1_def
  note prim_defs = set_font_def cell_def Let_def set_x_def ellipse_def set_fill_color_def
    add_page_def
  have geo: "pdf_h p = pdf_h pdf" "t_margin p = t_margin pdf" "b_margin p = b_margin pdf"
      "l_margin p = l_margin pdf" "pdf_w p = pdf_w pdf" "r_margin p = r_margin pdf"
    by (simp_all add: p_defs prim_defs)
  have "\<exists>e t. ops p = ops pdf @ [e, t]"
    by (simp add: p_defs prim_defs)
  moreover have "0 \<le> pdf_y pdf \<and> 0 \<le> t_margin pdf \<longrightarrow> 0 \<le> pdf_y p"
    by (simp add: p_defs prim_defs)
  moreover have "draw_list_in_columns pdf title user_list color =
        (if user_list = {||} then cell p 0 7 (str ''  None.'') 1
         else let r = fst (fold (column_step ((pdf_w p - l_margin p - r_margin p) / 3))
                              (sorted_list_of_fset user_list) (p, pdf_y p, 0))
              in set_y r (pdf_y r + line_height * 2))"
    by (simp add: draw_list_in_columns_def Let_def case_prod_unfold p_defs)
  ultimately show ?thesis using geo by auto
qed

lemma fold_column_step_geometry:
  "pdf_h (fst (fold (column_step cw) us st)) = pdf_h (fst st)
   \<and> t_margin (fst (fold (column_step cw) us st)) = t_margin (fst st)
   \<and> b_margin (fst (fold (column_step cw) us st)) = b_margin (fst st)
   \<and> l_margin (fst (fold (column_step cw) us st)) = l_margin (fst st)"
  by (induction us rule: rev_induct) (simp_all add: column_step_geometry)

lemma fold_column_step_rows:
  assumes tm: "0 \<le> t_margin pdf" and cy: "0 \<le> current_y"
  shows "\<exists>new. ops (fst (fold (column_step cw) us (pdf, current_y, 0))) = ops pdf @ new
     \<and> 0 \<le> fst (snd (fold (column_step cw) us (pdf, current_y, 0)))
     \<and> (us \<noteq> [] \<longrightarrow>
          0 < snd (snd (fold (column_step cw) us (pdf, current_y, 0)))
        \<and> pdf_y (fst (fold (column_step cw) us (pdf, current_y, 0)))
            = fst (snd (fold (column_step cw) us (pdf, current_y, 0)))
              + of_nat ((snd (snd (fold (column_step cw) us (pdf, current_y, 0))) - 1)
                          div num_cols) * line_height)
     \<and> (us = [] \<longrightarrow> new = []
           \<and> snd (snd (fold (column_step cw) us (pdf, current_y, 0))) = 0)
     \<and> (\<forall>op \<in> set new.
           op_page op \<le> page (fst (fold (column_step cw) us (pdf, current_y, 0)))
         \<and> (op_page op = page (fst (fold (column_step cw) us (pdf, current_y, 0)))
              \<longrightarrow> op_y op \<le> pdf_y (fst (fold (column_step cw) us (pdf, current_y, 0)))))"
proof (induction us rule: rev_induct)
  case Nil
  show ?case using cy by simp
next
  case (snoc u us)
  let ?s = "fold (column_step cw) us (pdf, current_y, 0)"
  obtain p c i where s: "?s = (p, c, i)" by (cases ?s)
  from snoc obtain new where IH:
    "ops (fst ?s) = ops pdf @ new"
    "0 \<le> fst (snd ?s)"
    "us \<noteq> [] \<longrightarrow> 0 < snd (snd ?s)
        \<and> pdf_y (fst ?s) = fst (snd ?s) + of_nat ((snd (snd ?s) - 1) div num_cols) * line_height"
    "us = [] \<longrightarrow> new = [] \<and> snd (snd ?s) = 0"
    "\<forall>op \<in> set new. op_page op \<le> page (fst ?s)
         \<and> (op_page op = page (fst ?s) \<longrightarrow> op_y op \<le> pdf_y (fst ?s))"
    by blast
  have new: "ops p = ops pdf @ new" using IH(1) by (simp add: s)
  have c0: "0 \<le> c" using IH(2) by (simp add: s)
  have pos: "us \<noteq> [] \<longrightarrow> 0 < i \<and> pdf_y p = c + of_nat ((i - 1) div num_cols) * line_height"
    using IH(3) by (simp add: s)
  have emp: "us = [] \<longrightarrow> new = [] \<and> i = 0" using IH(4) s by auto
  have rows: "\<forall>op \<in> set new. op_page op \<le> page p \<and> (op_page op = page p \<longrightarrow> op_y op \<le> pdf_y p)"
    using IH(5) by (simp add: s)
  have tp: "0 \<le> t_margin p"
    using fold_column_step_geometry [of cw us "(pdf, current_y, 0)"] s tm by simp
  let ?t = "column_step cw u (p, c, i)"
  have fold_eq: "fold (column_step cw) (us @ [u]) (pdf, current_y, 0) = ?t"
    by (simp add: s)
  from column_step_ops [of cw u "(p, c, i)"] obtain x w where
    step: "ops (fst ?t) = ops p @ [Cell (page (fst ?t)) x (pdf_y (fst ?t)) w line_height (safe_user u)]"
    by auto
  let ?c = "Cell (page (fst ?t)) x (pdf_y (fst ?t)) w line_height (safe_user u)"
  have ops_eq: "ops (fst ?t) = ops pdf @ (new @ [?c])"
    using step new by simp
  show ?case
  proof (cases "c + of_nat (i div num_cols) * line_height > pdf_h p - b_margin p - line_height")
    case True
    note br = column_step_break [OF True tp, of cw u]
    have "0 \<le> fst (snd ?t)" using br(1) tp by simp
    moreover have "0 < snd (snd ?t)" using br(1) by simp
    moreover have "pdf_y (fst ?t)
        = fst (snd ?t) + of_nat ((snd (snd ?t) - 1) div num_cols) * line_height"
      using br(1) br(3) by simp
    moreover have "\<forall>op \<in> set (new @ [?c]). op_page op \<le> page (fst ?t)
         \<and> (op_page op = page (fst ?t) \<longrightarrow> op_y op \<le> pdf_y (fst ?t))"
      using rows br(2) by auto
    ultimately show ?thesis
      unfolding fold_eq using ops_eq by blast
  next
    case False
    note nb = column_step_no_break [OF False c0, of cw u]
    have mono: "of_nat ((i - 1) div num_cols) * line_height
                  \<le> (of_nat (i div num_cols) * line_height :: rat)"
    proof -
      have "(i - 1) div num_cols \<le> i div num_cols"
        by (rule div_le_mono) simp
      then have "(of_nat ((i - 1) div num_cols) :: rat) \<le> of_nat (i div num_cols)"
        by simp
      then show ?thesis
        by (simp add: line_height_def)
    qed
    have "0 \<le> fst (snd ?t)" using nb(1) c0 by simp
    moreover have "0 < snd (snd ?t)" using nb(1) by simp
    moreover have "pdf_y (fst ?t)
        = fst (snd ?t) + of_nat ((snd (snd ?t) - 1) div num_cols) * line_height"
      using nb(1) nb(3) by simp
    moreover have "\<forall>op \<in> set (new @ [?c]). op_page op \<le> page (fst ?t)
         \<and> (op_page op = page (fst ?t) \<longrightarrow> op_y op \<le> pdf_y (fst ?t))"
    proof (cases "us = []")
      case True
      with emp show ?thesis by simp
    next
      case False
      with pos have "pdf_y p \<le> pdf_y (fst ?t)"
        using nb(3) mono by simp
      with rows nb(2) show ?thesis by auto
    qed
    ultimately show ?thesis
      unfolding fold_eq using ops_eq by blast
  qed
qed

lemma cell_ops:
  "\<exists>pg x y w'. ops (cell pdf w h txt n) = ops pdf @ [Cell pg x y w' h txt]"
  by (simp add: cell_def Let_def add_page_def)

lemma sorted_list_of_fset_eq_Nil: "sorted_list_of_fset S = [] \<longleftrightarrow> S = {||}"
proof -
  have "sorted_list_of_fset S = [] \<longleftrightarrow> set (sorted_list_of_fset S) = {}"
    by (simp only: set_empty)
  also have "\<dots> \<longleftrightarrow> fset S = {}"
    by simp
  also have "\<dots> \<longleftrightarrow> S = {||}"
    by (metis bot_fset.rep_eq fset_inject)
  finally show ?thesis .
qed

lemma safe_user_eq:
  "safe_user u = str ''- '' @ map (\<lambda>c. if c < 256 then c else of_char CHR ''?'') u"
  by (simp add: safe_user_def latin1_replace_def str_def)

lemma drop_safe_user: "\<forall>c \<in> set u. c < 256 \<Longrightarrow> drop 2 (safe_user u) = u"
  by (simp add: safe_user_eq str_def map_idI)

lemma sorted_four_users:
  "sorted_list_of_fset four_users = [str ''al'' @ [233], str ''bob'', str ''dan'', str ''eve'']"
  by code_simp

lemma sorted_five_users:
  "sorted_list_of_fset five_users
     = [str ''al'' @ [233], str ''bob'', str ''c'' @ [1072], str ''dan'', str ''eve'']"
  by code_simp

lemma sorted_cyrillic_users: "sorted_list_of_fset cyrillic_users = [[1072], [1073]]"
  by code_simp

lemma placed_texts_of_entries:
  assumes "user_list \<noteq> {||}"
  shows "map op_text (drop (length (ops pdf) + 2)
                        (ops (draw_list_in_columns pdf title user_list color)))
           = map safe_user (sorted_list_of_fset user_list)"
proof -
  let ?cw = "(pdf_w pdf - l_margin pdf - r_margin pdf) / 3"
  from draw_list_in_columns_unfold [of pdf title user_list color] assms
  obtain p e t where p: "ops p = ops pdf @ [e, t]"
    and r: "draw_list_in_columns pdf title user_list color =
         (let r = fst (fold (column_step ?cw) (sorted_list_of_fset user_list) (p, pdf_y p, 0))
          in set_y r (pdf_y r + line_height * 2))"
    by auto
  from fold_column_step_ops [of ?cw "sorted_list_of_fset user_list" "(p, pdf_y p, 0)"]
  obtain new where
    "ops (fst (fold (column_step ?cw) (sorted_list_of_fset user_list) (p, pdf_y p, 0)))
       = ops p @ new"
    "map op_text new = map safe_user (sorted_list_of_fset user_list)"
    by auto
  with r p show ?thesis by (simp add: Let_def set_y_def)
qed

text \<open>
  Claim C1, as the claim states it, fails: the placed items are not exactly the sorted
  input for every set. The two entries U+0430 and U+0431 are both placed, in sorted
  order, but both cells hold the text \<open>- ?\<close>, so what is placed is neither the
  entries themselves nor enough to tell them apart.
\<close>

theorem placed_texts_lossy_counterexample:
  "sorted_list_of_fset cyrillic_users = [[1072], [1073]]
   \<and> map op_text (drop (length (ops low_pdf) + 2)
        (ops (draw_list_in_columns low_pdf (str ''Fans'') cyrillic_users (40, 167, 69))))
       = [str ''- ?'', str ''- ?'']"
proof -
  have ne: "cyrillic_users \<noteq> {||}" by (simp add: cyrillic_users_def)
  have "map safe_user (sorted_list_of_fset cyrillic_users) = [str ''- ?'', str ''- ?'']"
    by (simp add: sorted_cyrillic_users safe_user_eq str_def)
  with placed_texts_of_entries [OF ne, of low_pdf "str ''Fans''" "(40, 167, 69)"]
  show ?thesis by (simp add: sorted_cyrillic_users)
qed

text \<open>
  Claim C1, amended. For every set of entries, the text cells drawn after the marker and
  the title are, in drawing order, the cells of the entries in lexicographically sorted
  order, one cell per entry whatever page breaks occur on the way (an empty set draws
  the single line \<open>None.\<close> instead). The text of a cell is the entry behind the prefix
  \<open>- \<close>, passed through Latin-1; when every entry is representable in Latin-1, reading
  the texts back without the prefix gives exactly the sorted entries.
\<close>

theorem entries_placed_in_sorted_order:
  "map op_text (drop (length (ops pdf) + 2)
                 (ops (draw_list_in_columns pdf title user_list color)))
     = (if user_list = {||} then [str ''  None.'']
        else map safe_user (sorted_list_of_fset user_list))
   \<and> (user_list \<noteq> {||} \<and> (\<forall>u \<in> fset user_list. \<forall>c \<in> set u. c < 256) \<longrightarrow>
        map (\<lambda>op. drop 2 (op_text op))
            (drop (length (ops pdf) + 2)
               (ops (draw_list_in_columns pdf title user_list color)))
          = sorted_list_of_fset user_list)"
proof -
  let ?r = "draw_list_in_columns pdf title user_list color"
  let ?cw = "(pdf_w pdf - l_margin pdf - r_margin pdf) / 3"
  from draw_list_in_columns_unfold [of pdf title user_list color]
  obtain p e t where p: "ops p = ops pdf @ [e, t]"
    and r: "?r = (if user_list = {||} then cell p 0 7 (str ''  None.'') 1
         else let r = fst (fold (column_step ?cw) (sorted_list_of_fset user_list) (p, pdf_y p, 0))
              in set_y r (pdf_y r + line_height * 2))"
    by blast
  have main: "map op_text (drop (length (ops pdf) + 2) (ops ?r))
     = (if user_list = {||} then [str ''  None.'']
        else map safe_user (sorted_list_of_fset user_list))"
  proof (cases "user_list = {||}")
    case True
    from cell_ops [of p 0 7 "str ''  None.''" 1] obtain pg x y w' where
      "ops (cell p 0 7 (str ''  None.'') 1) = ops p @ [Cell pg x y w' 7 (str ''  None.'')]"
      by blast
    with True r p show ?thesis by simp
  next
    case False
    from fold_column_step_ops [of ?cw "sorted_list_of_fset user_list" "(p, pdf_y p, 0)"]
    obtain new where
      "ops (fst (fold (column_step ?cw) (sorted_list_of_fset user_list) (p, pdf_y p, 0)))
         = ops p @ new"
      "map op_text new = map safe_user (sorted_list_of_fset user_list)"
      by auto
    with False r p show ?thesis by (simp add: Let_def set_y_def)
  qed
  have "map (\<lambda>op. drop 2 (op_text op)) (drop (length (ops pdf) + 2) (ops ?r))
          = sorted_list_of_fset user_list"
    if ne: "user_list \<noteq> {||}" and latin: "\<forall>u \<in> fset user_list. \<forall>c \<in> set u. c < 256"
  proof -
    have "map (\<lambda>op. drop 2 (op_text op)) (drop (length (ops pdf) + 2) (ops ?r))
            = map (drop 2) (map op_text (drop (length (ops pdf) + 2) (ops ?r)))"
      by simp
    also have "\<dots> = map (drop 2) (map safe_user (sorted_list_of_fset user_list))"
      using main ne by simp
    also have "\<dots> = map (\<lambda>u. drop 2 (safe_user u)) (sorted_list_of_fset user_list)"
      by simp
    also have "\<dots> = sorted_list_of_fset user_list"
      using latin by (intro map_idI) (simp add: drop_safe_user)
    finally show ?thesis .
  qed
  with main show ?thesis by blast
qed

theorem entries_placed_in_sorted_order_witness:
  "four_users \<noteq> {||}
   \<and> list_all (list_all (\<lambda>c. c < 256)) (sorted_list_of_fset four_users)
   \<and> map op_text (drop (length (ops low_pdf) + 2)
        (ops (draw_list_in_columns low_pdf (str ''Fans'') four_users (40, 167, 69))))
       = [str ''- al'' @ [233], str ''- bob'', str ''- dan'', str ''- eve'']
   \<and> map (\<lambda>op. drop 2 (op_text op)) (drop (length (ops low_pdf) + 2)
        (ops (draw_list_in_columns low_pdf (str ''Fans'') four_users (40, 167, 69))))
       = [str ''al'' @ [233], str ''bob'', str ''dan'', str ''eve'']"
proof -
  have ne: "four_users \<noteq> {||}" by (simp add: four_users_def)
  have latin: "\<forall>u \<in> fset four_users. \<forall>c \<in> set u. c < 256"
    by (simp add: four_users_def str_def)
  have latin': "list_all (list_all (\<lambda>c. c < 256)) (sorted_list_of_fset four_users)"
    by (simp add: sorted_four_users str_def)
  have texts: "map safe_user (sorted_list_of_fset four_users)
     = [str ''- al'' @ [233], str ''- bob'', str ''- dan'', str ''- eve'']"
    by (simp add: sorted_four_users safe_user_eq str_def)
  show ?thesis
    using entries_placed_in_sorted_order [of low_pdf "str ''Fans''" four_users "(40, 167, 69)"]
      ne latin latin' texts
    by (simp add: sorted_four_users)
qed

text \<open>
  Claim C2. In a round of the loop where the candidate ordinate
  \<open>current_y + row * line_height\<close>, with the row taken from the page-local index, exceeds
  \<open>h - b_margin - line_height\<close>, the renderer starts the next page, \<open>current_y\<close> becomes
  the top margin, the page-local index restarts at 0 (it is 1 after the entry is
  placed), and the entry of that round is drawn at column 0, row 0 of the new page;
  nothing is added to the old page. The page geometry is one with non-negative left and
  top margins and room for one row between the top margin and the bottom bound.
\<close>

theorem page_break_puts_entry_first_on_new_page:
  assumes "current_y + of_nat (page_item_index div num_cols) * line_height
             > pdf_h pdf - b_margin pdf - line_height"
      and "0 \<le> l_margin pdf" and "0 \<le> t_margin pdf"
      and "t_margin pdf + line_height \<le> pdf_h pdf - b_margin pdf"
  shows "snd (column_step col_width user (pdf, current_y, page_item_index))
           = (t_margin pdf, 0 + 1)
       \<and> page (fst (column_step col_width user (pdf, current_y, page_item_index)))
           = page pdf + 1
       \<and> ops (fst (column_step col_width user (pdf, current_y, page_item_index)))
           = ops pdf @
             [Cell (page pdf + 1)
                   (l_margin pdf + of_nat (0 mod num_cols) * col_width)
                   (t_margin pdf + of_nat (0 div num_cols) * line_height)
                   (if col_width = 0 then pdf_w pdf - r_margin pdf - l_margin pdf
                    else col_width)
                   line_height (safe_user user)]"
  using assms by (simp add: step_defs num_cols_def)

theorem page_break_puts_entry_first_on_new_page_witness:
  "265 + of_nat (3 div num_cols) * line_height
      > pdf_h low_pdf - b_margin low_pdf - line_height
   \<and> 0 \<le> l_margin low_pdf \<and> 0 \<le> t_margin low_pdf
   \<and> t_margin low_pdf + line_height \<le> pdf_h low_pdf - b_margin low_pdf
   \<and> snd (column_step 60 (str ''dan'') (low_pdf, 265, 3)) = (t_margin low_pdf, 1)
   \<and> page (fst (column_step 60 (str ''dan'') (low_pdf, 265, 3))) = 2
   \<and> ops (fst (column_step 60 (str ''dan'') (low_pdf, 265, 3)))
       = [Cell 2 (l_margin low_pdf) (t_margin low_pdf) 60 7 (str ''- dan'')]"
proof -
  have 1: "265 + of_nat (3 div num_cols) * line_height
      > pdf_h low_pdf - b_margin low_pdf - line_height"
    by (simp add: low_pdf_def new_pdf_def add_page_def fpdf_k_def num_cols_def line_height_def)
  have 2: "0 \<le> l_margin low_pdf" and 3: "0 \<le> t_margin low_pdf"
    by (simp_all add: low_pdf_def new_pdf_def add_page_def fpdf_k_def)
  have 4: "t_margin low_pdf + line_height \<le> pdf_h low_pdf - b_margin low_pdf"
    by (simp add: low_pdf_def new_pdf_def add_page_def fpdf_k_def line_height_def)
  have 5: "page low_pdf = 1" "ops low_pdf = []"
    by (simp_all add: low_pdf_def new_pdf_def add_page_def)
  have 6: "safe_user (str ''dan'') = str ''- dan''"
    by (simp add: safe_user_eq str_def)
  show ?thesis
    using page_break_puts_entry_first_on_new_page [OF 1 2 3 4, of 60 "str ''dan''"] 1 2 3 4
    by (simp add: 5 6 line_height_def num_cols_def)
qed

text \<open>
  Claim C6, as the claim states it, fails: for an empty list the cursor moves down by the
  height of the title line, 10, and the height of the \<open>None.\<close> line, 7, which is
  17 and not two line heights (14).
\<close>

theorem empty_list_cursor_counterexample:
  "pdf_y (draw_list_in_columns low_pdf (str ''Fans'') {||} (40, 167, 69)) - pdf_y low_pdf = 17
   \<and> 2 * line_height = 14"
  by (simp add: draw_list_in_columns_def Let_def low_pdf_def new_pdf_def fpdf_k_def
        set_fill_color_def ellipse_def set_x_def set_font_def cell_def add_page_def
        line_height_def)

text \<open>
  Claim C6, amended. For an empty list, when both lines fit above the bottom bound of the
  page, the renderer draws the marker, the title line (with the count 0) and exactly one
  \<open>None.\<close> line on the current page, engages no column logic, and leaves the cursor at
  the left margin, lower by the title-line height 10 plus the line height 7.
\<close>

theorem empty_list_draws_title_and_none:
  assumes "pdf_y pdf + 10 + 7 \<le> pdf_h pdf - b_margin pdf"
      and "0 \<le> pdf_x pdf + 5"
  shows "draw_list_in_columns pdf title {||} color =
     pdf\<lparr>fill_color := color,
         pdf_font := (''DejaVu'', [], 10),
         pdf_x := l_margin pdf,
         pdf_y := pdf_y pdf + 10 + 7,
         ops := ops pdf @
           [Ellipse (page pdf) (pdf_x pdf) (pdf_y pdf + 35 / 10) 3 3,
            Cell (page pdf) (pdf_x pdf + 5) (pdf_y pdf)
                 (pdf_w pdf - r_margin pdf - (pdf_x pdf + 5)) 10 (title @ str '' (0)''),
            Cell (page pdf) (l_margin pdf) (pdf_y pdf + 10)
                 (pdf_w pdf - r_margin pdf - l_margin pdf) 7 (str ''  None.'')]\<rparr>"
proof -
  have "str_nat (fcard ({||} :: pystr fset)) = str ''0''"
    by (simp add: fcard_fempty str_nat.simps [of 0] str_def)
  then show ?thesis
    using assms
    by (simp add: draw_list_in_columns_def Let_def set_fill_color_def ellipse_def set_x_def
          set_font_def cell_def add_page_def str_def)
qed

theorem empty_list_draws_title_and_none_witness:
  "pdf_y low_pdf + 10 + 7 \<le> pdf_h low_pdf - b_margin low_pdf
   \<and> 0 \<le> pdf_x low_pdf + 5
   \<and> pdf_y (draw_list_in_columns low_pdf (str ''Fans'') {||} (40, 167, 69)) = 255 + 10 + 7
   \<and> length (ops (draw_list_in_columns low_pdf (str ''Fans'') {||} (40, 167, 69))) = 3
   \<and> map op_text (tl (ops (draw_list_in_columns low_pdf (str ''Fans'') {||} (40, 167, 69))))
      = [str ''Fans (0)'', str ''  None.'']"
proof -
  have 1: "pdf_y low_pdf + 10 + 7 \<le> pdf_h low_pdf - b_margin low_pdf"
    by (simp add: low_pdf_def new_pdf_def add_page_def fpdf_k_def)
  have 2: "0 \<le> pdf_x low_pdf + 5"
    by (simp add: low_pdf_def new_pdf_def add_page_def fpdf_k_def)
  have 3: "pdf_y low_pdf = 255" "ops low_pdf = []" "page low_pdf = 1"
    by (simp_all add: low_pdf_def new_pdf_def add_page_def)
  show ?thesis
    using empty_list_draws_title_and_none [OF 1 2, of "str ''Fans''" "(40, 167, 69)"] 1 2
    by (simp add: 3 str_def)
qed

text \<open>
  Claim C7. For a non-empty list (cursor and top margin not negative), the last cell
  drawn is the cell of the last sorted entry, it lies on the page the renderer ends on,
  no cell of the block on that page lies lower, and the renderer leaves the cursor at
  the left margin, two line heights below the ordinate of that last cell.
\<close>

theorem cursor_two_line_heights_below_last_row:
  assumes "user_list \<noteq> {||}" and "0 \<le> pdf_y pdf" and "0 \<le> t_margin pdf"
  shows "(let r = draw_list_in_columns pdf title user_list color;
              placed = drop (length (ops pdf) + 2) (ops r)
          in placed \<noteq> []
           \<and> op_text (last placed) = safe_user (last (sorted_list_of_fset user_list))
           \<and> op_page (last placed) = page r
           \<and> list_all (\<lambda>op. op_page op \<le> page r) placed
           \<and> list_all (\<lambda>op. op_page op < page r \<or> op_y op \<le> op_y (last placed)) placed
           \<and> pdf_y r = op_y (last placed) + line_height * 2
           \<and> pdf_x r = l_margin pdf)"
proof -
  let ?us = "sorted_list_of_fset user_list"
  let ?cw = "(pdf_w pdf - l_margin pdf - r_margin pdf) / 3"
  from draw_list_in_columns_unfold [of pdf title user_list color] assms
  obtain p e t where p: "ops p = ops pdf @ [e, t]"
    and tm: "t_margin p = t_margin pdf" and lm: "l_margin p = l_margin pdf"
    and y0: "0 \<le> pdf_y p"
    and r: "draw_list_in_columns pdf title user_list color =
         (let r = fst (fold (column_step ?cw) ?us (p, pdf_y p, 0))
          in set_y r (pdf_y r + line_height * 2))"
    by auto
  let ?s = "fold (column_step ?cw) ?us (p, pdf_y p, 0)"
  have us: "?us \<noteq> []"
    using assms(1) by (simp add: sorted_list_of_fset_eq_Nil)
  have tp: "0 \<le> t_margin p" using tm assms(3) by simp
  from fold_column_step_rows [OF tp y0, of ?cw ?us] us
  obtain new where new: "ops (fst ?s) = ops p @ new"
    and c0: "0 \<le> fst (snd ?s)"
    and yy: "pdf_y (fst ?s)
               = fst (snd ?s) + of_nat ((snd (snd ?s) - 1) div num_cols) * line_height"
    and rows: "\<forall>op \<in> set new. op_page op \<le> page (fst ?s)
                 \<and> (op_page op = page (fst ?s) \<longrightarrow> op_y op \<le> pdf_y (fst ?s))"
    by blast
  from fold_column_step_ops [of ?cw ?us "(p, pdf_y p, 0)"] us
  obtain new' where new': "ops (fst ?s) = ops p @ new'"
    and texts: "map op_text new' = map safe_user ?us"
    and lasty: "op_y (last new') = pdf_y (fst ?s)"
    and lastp: "op_page (last new') = page (fst ?s)"
    by auto
  have same: "new' = new" using new new' by simp
  have ne: "new \<noteq> []"
  proof
    assume "new = []"
    with texts same have "map safe_user ?us = []" by simp
    with us show False by simp
  qed
  have lastt: "op_text (last new) = safe_user (last ?us)"
  proof -
    have "op_text (last new) = last (map op_text new)"
      using ne by (simp add: last_map)
    also have "\<dots> = last (map safe_user ?us)" using texts same by simp
    also have "\<dots> = safe_user (last ?us)" using us by (simp add: last_map)
    finally show ?thesis .
  qed
  have ynn: "0 \<le> pdf_y (fst ?s)"
    using yy c0 by (simp add: line_height_def)
  have geo: "l_margin (fst ?s) = l_margin pdf"
    using fold_column_step_geometry [of ?cw ?us "(p, pdf_y p, 0)"] lm by simp
  let ?r = "draw_list_in_columns pdf title user_list color"
  have rr: "?r = set_y (fst ?s) (pdf_y (fst ?s) + line_height * 2)"
    using r by (simp add: Let_def)
  have ry: "pdf_y ?r = pdf_y (fst ?s) + line_height * 2"
    using ynn by (simp add: rr set_y_def line_height_def)
  have rx: "pdf_x ?r = l_margin pdf"
    by (simp add: rr set_y_def geo)
  have rp: "page ?r = page (fst ?s)"
    by (simp add: rr set_y_def)
  have placed: "drop (length (ops pdf) + 2) (ops ?r) = new"
    by (simp add: rr set_y_def new p)
  have pages: "list_all (\<lambda>op. op_page op \<le> page ?r) new"
    using rows by (simp add: list_all_iff rp)
  have below: "list_all (\<lambda>op. op_page op < page ?r \<or> op_y op \<le> op_y (last new)) new"
    unfolding list_all_iff
  proof
    fix op assume "op \<in> set new"
    with rows have "op_page op \<le> page (fst ?s)"
      and "op_page op = page (fst ?s) \<longrightarrow> op_y op \<le> pdf_y (fst ?s)" by auto
    then show "op_page op < page ?r \<or> op_y op \<le> op_y (last new)"
      using lasty same rp by auto
  qed
  show ?thesis
    unfolding Let_def placed
    using ne lastt lastp same rp pages below ry lasty rx by simp
qed

theorem cursor_two_line_heights_below_last_row_witness:
  "five_users \<noteq> {||} \<and> 0 \<le> pdf_y low_pdf \<and> 0 \<le> t_margin low_pdf
   \<and> drop (length (ops low_pdf) + 2)
        (ops (draw_list_in_columns low_pdf (str ''Fans'') five_users (40, 167, 69))) \<noteq> []
   \<and> op_text (last (drop (length (ops low_pdf) + 2)
        (ops (draw_list_in_columns low_pdf (str ''Fans'') five_users (40, 167, 69)))))
       = str ''- eve''
   \<and> pdf_y (draw_list_in_columns low_pdf (str ''Fans'') five_users (40, 167, 69))
       = op_y (last (drop (length (ops low_pdf) + 2)
           (ops (draw_list_in_columns low_pdf (str ''Fans'') five_users (40, 167, 69)))))
         + line_height * 2
   \<and> pdf_x (draw_list_in_columns low_pdf (str ''Fans'') five_users (40, 167, 69))
       = l_margin low_pdf"
proof -
  have 1: "five_users \<noteq> {||}" by (simp add: five_users_def)
  have 2: "0 \<le> pdf_y low_pdf" and 3: "0 \<le> t_margin low_pdf"
    by (simp_all add: low_pdf_def new_pdf_def add_page_def fpdf_k_def)
  have 4: "safe_user (last (sorted_list_of_fset five_users)) = str ''- eve''"
    by (simp add: sorted_five_users safe_user_eq str_def)
  note inst = cursor_two_line_heights_below_last_row
      [OF 1 2 3, of "str ''Fans''" "(40, 167, 69)", unfolded Let_def 4]
  show ?thesis
    using inst 1 2 3 by blast
qed

text \<open>
  Claim C9, as the claim states it, fails: the text placed is not the sanitized entry
  text alone. For the entry \<open>bob\<close>, which Latin-1 leaves unchanged, the cell holds
  \<open>- bob\<close>.
\<close>

theorem placed_text_counterexample:
  "op_text (last (ops (fst (column_step 60 (str ''bob'') (low_pdf, 265, 0))))) = str ''- bob''
   \<and> latin1_replace (str ''bob'') = str ''bob''
   \<and> str ''- bob'' \<noteq> str ''bob''"
  by (simp add: step_defs latin1_replace_def safe_user_def str_def low_pdf_def new_pdf_def
        fpdf_k_def line_height_def num_cols_def)

text \<open>
  Claim C9, amended. Each round of the loop draws exactly one cell, and its text is the
  prefix \<open>- \<close> followed by the entry text in which every code point that Latin-1 cannot
  represent (above 255) is replaced by a question mark and every other character is
  left unchanged.
\<close>

theorem placed_text_is_bullet_and_sanitized_entry:
  "ops (fst (column_step col_width user st))
     = ops (fst st) @ [last (ops (fst (column_step col_width user st)))]
   \<and> op_text (last (ops (fst (column_step col_width user st))))
     = str ''- '' @ map (\<lambda>c. if c < 256 then c else of_char CHR ''?'') user"
proof -
  from column_step_ops [of col_width user st] obtain x w where
    "ops (fst (column_step col_width user st)) =
       ops (fst st) @ [Cell (page (fst (column_step col_width user st))) x
                          (pdf_y (fst (column_step col_width user st))) w line_height
                          (safe_user user)]"
    by blast
  then show ?thesis by (simp add: safe_user_eq)
qed

theorem placed_text_is_bullet_and_sanitized_entry_witness:
  "op_text (last (ops (fst (column_step 60 (str ''c'' @ [1072]) (low_pdf, 265, 0)))))
     = str ''- c?''"
  using placed_text_is_bullet_and_sanitized_entry [of 60 "str ''c'' @ [1072]" "(low_pdf, 265, 0)"]
  by (simp add: str_def)

end
